theory Spec2Isabelle
  imports Complex_Main
begin

section \<open>RTL433 weather station: the ingestion loop and its helpers\<close>

text \<open>
  A shallow embedding of \<^verbatim>\<open>RTL433_WeatherStation.py\<close>. Python floats are modelled as
  reals (ideal arithmetic, no rounding), Python integers as \<open>int\<close>, and every raise
  of the source as a value \<open>Inl e\<close> of a sum type. A numpy array holding the readings
  of one telemetry line has one element, so a list of such arrays is modelled as the
  list of their elements.
\<close>

subsection \<open>Exceptions\<close>

datatype error =
    ValueError    \<comment> \<open>\<^verbatim>\<open>pd.read_json\<close> on a line that is no JSON; \<^verbatim>\<open>np.max\<close> of an empty sequence\<close>
  | IndexError    \<comment> \<open>\<^verbatim>\<open>xs[-1]\<close> on an empty list\<close>
  | URLError      \<comment> \<open>\<^verbatim>\<open>urlopen\<close>: no route, refused, DNS failure\<close>
  | TimeoutError  \<comment> \<open>\<^verbatim>\<open>urlopen\<close> or \<^verbatim>\<open>response.read\<close>: socket timeout\<close>

subsection \<open>numpy reductions\<close>

text \<open>
  \<^verbatim>\<open>np.mean\<close> and \<^verbatim>\<open>np.median\<close> of an empty sequence are \<^verbatim>\<open>nan\<close> (with a warning, no
  exception): \<open>None\<close> stands for \<^verbatim>\<open>nan\<close>. \<^verbatim>\<open>np.max\<close> of an empty sequence raises
  \<^verbatim>\<open>ValueError\<close>.
\<close>

definition np_mean :: "real list \<Rightarrow> real option" where
  "np_mean xs = (if xs = [] then None else Some (sum_list xs / real (length xs)))"

definition np_median :: "real list \<Rightarrow> real option" where
  "np_median xs =
     (let s = sort xs; n = length s
      in if n = 0 then None
         else if odd n then Some (s ! (n div 2))
         else Some ((s ! (n div 2 - 1) + s ! (n div 2)) / 2))"

fun np_max :: "real list \<Rightarrow> error + real" where
  "np_max [] = Inl ValueError"
| "np_max (x # xs) = Inr (fold max xs x)"

subsection \<open>Helper functions (source lines 123--171)\<close>

definition rht_to_dp :: "real \<Rightarrow> real \<Rightarrow> real" where
  "rht_to_dp temp rh = temp - (0.36 * (100 - rh))"

definition degc_to_degf :: "real \<Rightarrow> real" where
  "degc_to_degf input_temp = (input_temp * 1.8) + 32"

definition ms_to_mph :: "real \<Rightarrow> real" where
  "ms_to_mph input_speed = input_speed * 2.237"

text \<open>
  \<^verbatim>\<open>streamRoll\<close>: \<^verbatim>\<open>daList[-1]\<close> is the last element and raises on the empty list;
  \<^verbatim>\<open>daList[-3:]\<close> is the slice starting three places before the end.
\<close>

definition streamRoll :: "real list \<Rightarrow> error + real" where
  "streamRoll daList =
     (if length daList < 3 then
        (case np_mean daList of
           None \<Rightarrow> Inl IndexError
         | Some m \<Rightarrow> Inr (m + (last daList - m) / real (length daList)))
      else
        (case np_mean (drop (length daList - 3) daList) of
           None \<Rightarrow> Inl IndexError
         | Some m \<Rightarrow>
             Inr (m + (last daList - m) / real (length (drop (length daList - 3) daList)))))"

subsection \<open>Value correcting functions (source lines 176--193)\<close>

definition temp_correct :: "real \<Rightarrow> real" where
  "temp_correct temp = temp + 10.001"

definition ws_correct :: "real \<Rightarrow> real" where
  "ws_correct ws = ws * (1 / 0.868976)"

text \<open>
  \<^verbatim>\<open>wd_correct\<close> computes the local \<^verbatim>\<open>new_wd\<close> and ends without a \<^verbatim>\<open>return\<close>
  statement, so the call evaluates to Python's \<^verbatim>\<open>None\<close> (here \<open>None\<close>).
  \<open>wd_correct_new_wd\<close> is the value of the local when the body ends.
\<close>

definition wd_correct_new_wd :: "real \<Rightarrow> real" where
  "wd_correct_new_wd wd =
     (let new_wd = wd - 90.0;
          new_wd = (if new_wd < 0 then new_wd + 360.0 else new_wd);
          new_wd = (if new_wd \<ge> 360 then new_wd - 360.0 else new_wd)
      in new_wd)"

definition wd_correct :: "real \<Rightarrow> real option" where
  "wd_correct wd = (let new_wd = wd_correct_new_wd wd in None)"

subsection \<open>Telemetry lines and queue events\<close>

text \<open>
  The frame \<^verbatim>\<open>df\<close> built from one line keeps the columns other than \<^verbatim>\<open>time\<close>,
  \<^verbatim>\<open>id\<close> and \<^verbatim>\<open>model\<close>; the loop looks at four of them. \<open>Malformed\<close> stands for
  every line on which \<^verbatim>\<open>line.decode()\<close>, \<^verbatim>\<open>pd.read_json\<close>, \<^verbatim>\<open>set_index("time")\<close>
  or \<^verbatim>\<open>drop(["id", "model"])\<close> raises.
\<close>

record reading =
  humidity :: "real option"
  wind_direction :: "real option"
  wind_speed_ms :: "real option"
  temperature_C :: "real option"

datatype line = Malformed | Telemetry reading

definition read_json :: "line \<Rightarrow> error + reading" where
  "read_json l = (case l of Malformed \<Rightarrow> Inl ValueError | Telemetry df \<Rightarrow> Inr df)"

text \<open>\<^verbatim>\<open>q.get(timeout=1)\<close> either raises \<^verbatim>\<open>Empty\<close> or hands over a line.\<close>

datatype event = Empty | Got line

text \<open>What the network does when the upload is attempted.\<close>

datatype net = Responds | Fails error

subsection \<open>Module-level state (source lines 66--88 and 302--314)\<close>

definition UPLOAD_INTERVAL :: int where
  "UPLOAD_INTERVAL = 1 * 60"

definition WEATHER_UPLOAD :: bool where
  "WEATHER_UPLOAD = True"

definition pulse_timeout :: int where
  "pulse_timeout = 400000"

definition rollingAveNum :: nat where
  "rollingAveNum = 5"

record state =
  wu_station_id :: string
  wu_station_key :: string
  have_hum :: bool
  have_temp :: bool
  have_wd :: bool
  have_ws :: bool
  pulse :: int
  upload_timer :: int
  hum :: "real list"
  tempC :: "real list"
  windDir :: "real list"
  windSpeed :: "real list"
  roll :: "real list"
  tempTrack :: "real list"

definition initial :: "string \<Rightarrow> string \<Rightarrow> state" where
  "initial station_id station_key =
     \<lparr>wu_station_id = station_id, wu_station_key = station_key,
      have_hum = False, have_temp = False, have_wd = False, have_ws = False,
      pulse = 0, upload_timer = 0,
      hum = [], tempC = [], windDir = [], windSpeed = [], roll = [], tempTrack = []\<rparr>"

subsection \<open>Main functions (source lines 201--270)\<close>

definition clearVars :: "real list \<times> real list \<times> real list \<times> real list \<times> int" where
  "clearVars = ([], [], [], [], 0)"

text \<open>
  \<^verbatim>\<open>display_data\<close> prints five numbers; the model returns them. The two \<^verbatim>\<open>np.max\<close> calls
  raise on an empty buffer.
\<close>

record display_lines =
  temperature_F :: "real option"
  relative_humidity :: "real option"
  wind_mean :: "real option"
  wind_max :: real
  wind_dir_max :: real

definition display_data ::
  "real list \<Rightarrow> real list \<Rightarrow> real list \<Rightarrow> real list \<Rightarrow> error + display_lines" where
  "display_data h c wd ws =
     (case np_max ws of
        Inl e \<Rightarrow> Inl e
      | Inr ws_max \<Rightarrow>
          (case np_max wd of
             Inl e \<Rightarrow> Inl e
           | Inr wd_max \<Rightarrow>
               Inr \<lparr>temperature_F = map_option (\<lambda>m. degc_to_degf (temp_correct m)) (np_mean c),
                    relative_humidity = np_mean h,
                    wind_mean = map_option (\<lambda>m. ws_correct (ms_to_mph m)) (np_mean ws),
                    wind_max = ws_correct (ms_to_mph ws_max),
                    wind_dir_max = wd_max\<rparr>))"

text \<open>
  The dictionary \<^verbatim>\<open>weather_data\<close> of \<^verbatim>\<open>upload_weather\<close>, before \<^verbatim>\<open>str\<close> is applied to
  its numbers. The three wind-direction entries hold what \<^verbatim>\<open>wd_correct\<close> returns.
\<close>

record weather_data =
  action :: string
  ID :: string
  PASSWORD :: string
  dateutc :: string
  tempf :: "real option"
  dewPtF :: "real option"
  humidity_pct :: "real option"
  winddir_avg2m :: "real option"
  windspdmph_avg2m :: "real option"
  windspeedmph :: "real option"
  winddir :: "real option"
  windgustmph :: real
  windgustdir :: "real option"

definition build_weather_data ::
  "string \<Rightarrow> string \<Rightarrow> real list \<Rightarrow> real list \<Rightarrow> real list \<Rightarrow> real list
   \<Rightarrow> error + weather_data" where
  "build_weather_data station_id station_key tempC' humidity' windDir' windSpeed' =
     (case np_max windDir' of
        Inl e \<Rightarrow> Inl e
      | Inr wd_max \<Rightarrow>
          (case np_max windSpeed' of
             Inl e \<Rightarrow> Inl e
           | Inr ws_max \<Rightarrow>
               Inr \<lparr>action = ''updateraw'',
                    ID = station_id,
                    PASSWORD = station_key,
                    dateutc = ''now'',
                    tempf = map_option (\<lambda>m. degc_to_degf (temp_correct m)) (np_mean tempC'),
                    dewPtF =
                      (case np_mean tempC' of
                         None \<Rightarrow> None
                       | Some m \<Rightarrow>
                           map_option (rht_to_dp (degc_to_degf (temp_correct m)))
                             (np_mean humidity')),
                    humidity_pct = np_mean humidity',
                    winddir_avg2m = Option.bind (np_mean windDir') wd_correct,
                    windspdmph_avg2m =
                      map_option (\<lambda>m. ws_correct (ms_to_mph m)) (np_mean windSpeed'),
                    windspeedmph =
                      map_option (\<lambda>m. ws_correct (ms_to_mph m)) (np_median windSpeed'),
                    winddir = wd_correct wd_max,
                    windgustmph = ws_correct (ms_to_mph ws_max),
                    windgustdir = wd_correct wd_max\<rparr>))"

text \<open>
  The \<^verbatim>\<open>try\<close> block of \<^verbatim>\<open>upload_weather\<close>: \<^verbatim>\<open>urlopen\<close>, \<^verbatim>\<open>read\<close>, print the server's
  answer, \<^verbatim>\<open>close\<close>. The bare \<^verbatim>\<open>except:\<close> catches whatever the block raises and prints
  a line. The model returns the request and which of the two lines was printed.
\<close>

datatype upload_log = ServerResponse | ExceptionLogged

definition urlopen :: "net \<Rightarrow> weather_data \<Rightarrow> error + unit" where
  "urlopen n wdata = (case n of Responds \<Rightarrow> Inr () | Fails e \<Rightarrow> Inl e)"

definition upload_weather ::
  "string \<Rightarrow> string \<Rightarrow> real list \<Rightarrow> real list \<Rightarrow> real list \<Rightarrow> real list \<Rightarrow> net
   \<Rightarrow> error + weather_data \<times> upload_log" where
  "upload_weather station_id station_key tempC' humidity' windDir' windSpeed' n =
     (case build_weather_data station_id station_key tempC' humidity' windDir' windSpeed' of
        Inl e \<Rightarrow> Inl e
      | Inr wdata \<Rightarrow>
          (case urlopen n wdata of
             Inl e \<Rightarrow> Inr (wdata, ExceptionLogged)
           | Inr u \<Rightarrow> Inr (wdata, ServerResponse)))"

subsection \<open>The body of the main loop (source lines 316--429)\<close>

text \<open>
  Lines 345--372: the fields of a parsed line go to their buffers. The temperature is not
  appended: \<^verbatim>\<open>tempC\<close> is replaced by the array of the line. \<^verbatim>\<open>tempTrack\<close> is appended
  to, and cut down to its last \<open>rollingAveNum - 1\<close> entries once it is longer than
  \<open>rollingAveNum\<close>. \<^verbatim>\<open>tempTrack[-1]\<close> is read after \<^verbatim>\<open>streamRoll\<close> has returned, when
  the list is known not to be empty. A rejected reading sets \<^verbatim>\<open>have_temp\<close> to false.
\<close>

definition trim_tempTrack :: "real list \<Rightarrow> real list" where
  "trim_tempTrack tt =
     (if length tt > rollingAveNum then drop (length tt - (rollingAveNum - 1)) tt else tt)"

definition ingest :: "state \<Rightarrow> reading \<Rightarrow> error + state" where
  "ingest s df =
     (let s1 = (case humidity df of
                  None \<Rightarrow> s
                | Some v \<Rightarrow> s\<lparr>hum := hum s @ [v], have_hum := True\<rparr>);
          s2 = (case wind_direction df of
                  None \<Rightarrow> s1
                | Some v \<Rightarrow> s1\<lparr>windDir := windDir s1 @ [v], have_wd := True\<rparr>);
          s3 = (case wind_speed_ms df of
                  None \<Rightarrow> s2
                | Some v \<Rightarrow> s2\<lparr>windSpeed := windSpeed s2 @ [v], have_ws := True\<rparr>)
      in case temperature_C df of
           None \<Rightarrow> Inr s3
         | Some v \<Rightarrow>
             (let tt = trim_tempTrack (tempTrack s3 @ [v])
              in case streamRoll tt of
                   Inl e \<Rightarrow> Inl e
                 | Inr r \<Rightarrow>
                     Inr (s3\<lparr>tempC := [v], tempTrack := tt, roll := [r],
                             have_temp := (if \<bar>last tt - r\<bar> > 5 then False else True)\<rparr>)))"

text \<open>Lines 317--384: count the iteration, read the queue, parse and ingest.\<close>

definition receive :: "state \<Rightarrow> event \<Rightarrow> error + state" where
  "receive s ev =
     (let s1 = s\<lparr>upload_timer := upload_timer s + 1\<rparr>
      in case ev of
           Empty \<Rightarrow> Inr (s1\<lparr>pulse := pulse s1 + 1\<rparr>)
         | Got l \<Rightarrow>
             (let s2 = s1\<lparr>pulse := pulse s1 - 1\<rparr>
              in if pulse s2 > 0 then
                   (case read_json l of
                      Inl e \<Rightarrow> Inl e
                    | Inr df \<Rightarrow> ingest s2 df)
                 else Inr s2))"

text \<open>
  Lines 389--429, in pieces: the test of the four flags (389--394), the reset of the
  flags (426--429), the assignments made when an upload is due (421--422), their
  composition, and the upload itself (406--419). The test of \<open>pulse_timeout\<close> only
  prints. The call of \<^verbatim>\<open>upload_weather\<close> passes the scalar \<^verbatim>\<open>tempC[-1]\<close>, whose
  \<^verbatim>\<open>np.mean\<close> is itself: the model passes the one-element list. \<^verbatim>\<open>tempC[-1]\<close> raises
  when \<^verbatim>\<open>tempC\<close> is the empty list that \<^verbatim>\<open>clearVars\<close> left.
\<close>

definition isComplete :: "state \<Rightarrow> bool" where
  "isComplete s = (have_hum s \<and> have_temp s \<and> have_wd s \<and> have_ws s)"

definition reset_trackers :: "state \<Rightarrow> state" where
  "reset_trackers s =
     s\<lparr>have_hum := False, have_temp := False, have_wd := False, have_ws := False\<rparr>"

definition clear_after_upload :: "state \<Rightarrow> state" where
  "clear_after_upload s =
     (case clearVars of
        (a1, a2, a3, a4, a5) \<Rightarrow>
          s\<lparr>upload_timer := 0, hum := a1, tempC := a2, windDir := a3, windSpeed := a4,
            pulse := a5\<rparr>)"

definition flush :: "state \<Rightarrow> state" where
  "flush s = reset_trackers (clear_after_upload s)"

definition attempt_upload :: "state \<Rightarrow> net \<Rightarrow> error + unit" where
  "attempt_upload s n =
     (if WEATHER_UPLOAD then
        (case tempC s of
           [] \<Rightarrow> Inl IndexError
         | t # ts \<Rightarrow>
             (case upload_weather (wu_station_id s) (wu_station_key s) [last (tempC s)]
                     (hum s) (windDir s) (windSpeed s) n of
                Inl e \<Rightarrow> Inl e
              | Inr sent \<Rightarrow> Inr ()))
      else Inr ())"

definition deliver :: "state \<Rightarrow> net \<Rightarrow> error + state" where
  "deliver s n =
     (if isComplete s then
        (case display_data (hum s) (tempC s) (windDir s) (windSpeed s) of
           Inl e \<Rightarrow> Inl e
         | Inr shown \<Rightarrow>
             (if upload_timer s > UPLOAD_INTERVAL then
                (case attempt_upload s n of
                   Inl e \<Rightarrow> Inl e
                 | Inr u \<Rightarrow> Inr (flush s))
              else Inr (reset_trackers s)))
      else Inr s)"

definition iteration :: "state \<Rightarrow> event \<times> net \<Rightarrow> error + state" where
  "iteration s en =
     (case receive s (fst en) of
        Inl e \<Rightarrow> Inl e
      | Inr s' \<Rightarrow> deliver s' (snd en))"

text \<open>
  \<^verbatim>\<open>while True\<close>: one iteration for each result of \<^verbatim>\<open>q.get\<close>, until an exception
  leaves the loop.
\<close>

fun run :: "state \<Rightarrow> (event \<times> net) list \<Rightarrow> error + state" where
  "run s [] = Inr s"
| "run s (en # ens) =
     (case iteration s en of
        Inl e \<Rightarrow> Inl e
      | Inr s' \<Rightarrow> run s' ens)"

section \<open>The specification's notions\<close>

text \<open>
  The smoother as the specification words it: the mean of the history plus the distance
  of the latest entry from that mean, divided by the length; over the whole history when
  it has fewer than three entries, over its last three entries otherwise.
\<close>

definition mean :: "real list \<Rightarrow> real" where
  "mean xs = sum_list xs / real (length xs)"

definition last_entries :: "nat \<Rightarrow> real list \<Rightarrow> real list" where
  "last_entries n xs = rev (take n (rev xs))"

definition spec_estimate :: "real list \<Rightarrow> real" where
  "spec_estimate h = mean h + (last h - mean h) / real (length h)"

definition spec_smoother :: "real list \<Rightarrow> real" where
  "spec_smoother h =
     (if length h < 3 then spec_estimate h else spec_estimate (last_entries 3 h))"

text \<open>
  The accumulator of the specification: \<open>ingest\<close> applied to one parsed line after the
  other, with no completeness test in between.
\<close>

fun ingest_all :: "state \<Rightarrow> reading list \<Rightarrow> error + state" where
  "ingest_all s [] = Inr s"
| "ingest_all s (df # dfs) =
     (case ingest s df of
        Inl e \<Rightarrow> Inl e
      | Inr s' \<Rightarrow> ingest_all s' dfs)"

text \<open>A channel has been observed when some line of the sequence carries its field.\<close>

definition seen :: "(reading \<Rightarrow> real option) \<Rightarrow> reading list \<Rightarrow> bool" where
  "seen field dfs = list_ex (\<lambda>df. field df \<noteq> None) dfs"

text \<open>
  The caller's classification of the latest reading of a history: accepted when it is
  at most 5 away from the estimate. \<open>verdicts h dfs\<close> lists, in order of arrival, the
  classification of every temperature carried by \<open>dfs\<close>, the history being \<open>h\<close>
  before the first line.
\<close>

definition accepted :: "real list \<Rightarrow> bool" where
  "accepted h =
     (case streamRoll h of
        Inl e \<Rightarrow> False
      | Inr estimate \<Rightarrow> \<bar>last h - estimate\<bar> \<le> 5)"

fun verdicts :: "real list \<Rightarrow> reading list \<Rightarrow> bool list" where
  "verdicts h [] = []"
| "verdicts h (df # dfs) =
     (case temperature_C df of
        None \<Rightarrow> verdicts h dfs
      | Some v \<Rightarrow>
          accepted (trim_tempTrack (h @ [v])) # verdicts (trim_tempTrack (h @ [v])) dfs)"

text \<open>
  The completeness test as the specification words it: each of the four channels
  observed at least once, the temperature by a reading that was accepted.
\<close>

definition spec_isComplete :: "real list \<Rightarrow> reading list \<Rightarrow> bool" where
  "spec_isComplete h dfs =
     (seen humidity dfs \<and> True \<in> set (verdicts h dfs)
      \<and> seen wind_direction dfs \<and> seen wind_speed_ms dfs)"

text \<open>The most recent temperature of the sequence exists and was accepted.\<close>

definition latest_accepted :: "real list \<Rightarrow> reading list \<Rightarrow> bool" where
  "latest_accepted h dfs = (verdicts h dfs \<noteq> [] \<and> last (verdicts h dfs))"

text \<open>
  A flag that is set has its buffer filled: what the display and the upload need in
  order not to raise.
\<close>

definition fed :: "state \<Rightarrow> bool" where
  "fed s =
     ((have_temp s \<longrightarrow> tempC s \<noteq> []) \<and> (have_wd s \<longrightarrow> windDir s \<noteq> [])
      \<and> (have_ws s \<longrightarrow> windSpeed s \<noteq> []))"

subsection \<open>Scenarios\<close>

text \<open>A line that carries a temperature only.\<close>

definition temperature_line :: "real \<Rightarrow> reading" where
  "temperature_line v =
     \<lparr>humidity = None, wind_direction = None, wind_speed_ms = None, temperature_C = Some v\<rparr>"

text \<open>Seven empty reads of the queue, then six temperature lines.\<close>

definition six_temperatures :: "(event \<times> net) list" where
  "six_temperatures =
     replicate 7 (Empty, Responds) @
     [(Got (Telemetry (temperature_line 1)), Responds),
      (Got (Telemetry (temperature_line 2)), Responds),
      (Got (Telemetry (temperature_line 3)), Responds),
      (Got (Telemetry (temperature_line 4)), Responds),
      (Got (Telemetry (temperature_line 5)), Responds),
      (Got (Telemetry (temperature_line 6)), Responds)]"

text \<open>Lines that carry one other field only.\<close>

definition humidity_line :: "real \<Rightarrow> reading" where
  "humidity_line v =
     \<lparr>humidity = Some v, wind_direction = None, wind_speed_ms = None, temperature_C = None\<rparr>"

definition wind_direction_line :: "real \<Rightarrow> reading" where
  "wind_direction_line v =
     \<lparr>humidity = None, wind_direction = Some v, wind_speed_ms = None, temperature_C = None\<rparr>"

definition wind_speed_line :: "real \<Rightarrow> reading" where
  "wind_speed_line v =
     \<lparr>humidity = None, wind_direction = None, wind_speed_ms = Some v, temperature_C = None\<rparr>"

text \<open>One line of each channel.\<close>

definition full_cycle :: "reading list" where
  "full_cycle =
     [humidity_line 50, temperature_line 20, wind_direction_line 90, wind_speed_line 3]"

text \<open>Two temperatures of 10, a spike to 40, then the three other channels.\<close>

definition spike_cycle :: "reading list" where
  "spike_cycle =
     [temperature_line 10, temperature_line 10, temperature_line 40,
      humidity_line 50, wind_direction_line 90, wind_speed_line 3]"

text \<open>The same lines as the queue hands them over, after ten empty reads.\<close>

definition spike_events :: "(event \<times> net) list" where
  "spike_events =
     replicate 10 (Empty, Responds) @
     [(Got (Telemetry (temperature_line 10)), Responds),
      (Got (Telemetry (temperature_line 10)), Responds),
      (Got (Telemetry (temperature_line 40)), Responds),
      (Got (Telemetry (humidity_line 50)), Responds),
      (Got (Telemetry (wind_direction_line 90)), Responds),
      (Got (Telemetry (wind_speed_line 3)), Responds)]"

text \<open>
  \<open>m\<close> empty reads, then humidity, temperature and wind direction: one line short of a
  complete cycle.
\<close>

definition three_of_four :: "nat \<Rightarrow> (event \<times> net) list" where
  "three_of_four m =
     replicate m (Empty, Responds) @
     [(Got (Telemetry (humidity_line 50)), Responds),
      (Got (Telemetry (temperature_line 20)), Responds),
      (Got (Telemetry (wind_direction_line 90)), Responds)]"

text \<open>The state after \<open>three_of_four m\<close>, for \<open>m\<close> at least 4.\<close>

definition after_three_of_four :: "int \<Rightarrow> state" where
  "after_three_of_four m =
     (initial [] [])\<lparr>have_hum := True, have_temp := True, have_wd := True,
       pulse := m - 3, upload_timer := m + 3,
       hum := [50], tempC := [20], windDir := [90], roll := [20], tempTrack := [20]\<rparr>"

section \<open>Properties\<close>

text \<open>
  C1. The wind-direction correction applied to 45 does not return 315: the function has
  no return statement, so the call yields Python's None, although the local it computes
  holds 315 (and 10 for the input 100).
\<close>

theorem wd_correct_returns_None:
  "wd_correct 45 = None \<and> wd_correct 100 = None
   \<and> wd_correct_new_wd 45 = 315 \<and> wd_correct_new_wd 100 = 10"
  by (simp add: wd_correct_def wd_correct_new_wd_def)

subsection \<open>The smoother\<close>

lemma last_entries_drop: "last_entries n xs = drop (length xs - n) xs"
  by (simp add: last_entries_def rev_take)

lemma last_drop3: "3 \<le> length xs \<Longrightarrow> last (drop (length xs - 3) xs) = last xs"
  by (simp add: last_drop)

lemma streamRoll_is_spec:
  assumes "daList \<noteq> []"
  shows "streamRoll daList = Inr (spec_smoother daList)"
proof (cases "length daList < 3")
  case True
  with assms show ?thesis
    by (simp add: streamRoll_def np_mean_def spec_smoother_def spec_estimate_def mean_def)
next
  case False
  then have len: "3 \<le> length daList" by simp
  then have ne: "drop (length daList - 3) daList \<noteq> []" by simp
  from len have "last (drop (length daList - 3) daList) = last daList"
    by (rule last_drop3)
  with False ne show ?thesis
    by (simp add: streamRoll_def np_mean_def spec_smoother_def spec_estimate_def mean_def
        last_entries_drop)
qed

text \<open>
  C5. For every non-empty temperature history the smoother returns the estimate of the
  specification: mean plus (latest minus mean) over the length, taken over the whole
  history when it is shorter than 3 and over its last 3 entries otherwise. For the
  history 10, 10, 13 the estimate is 11 + 2/3, and the reading 13, arriving after
  10, 10, is accepted.
\<close>

theorem streamRoll_matches_spec:
  assumes "daList \<noteq> []"
  shows "streamRoll daList = Inr (spec_smoother daList)
    \<and> streamRoll [10, 10, 13] = Inr (11 + 2 / 3)
    \<and> map_sum id have_temp (ingest (s\<lparr>tempTrack := [10, 10]\<rparr>) (temperature_line 13))
        = Inr True"
proof -
  have a: "streamRoll [10, 10, 13] = Inr (11 + 2 / 3)"
    by (simp add: streamRoll_def np_mean_def)
  have b: "map_sum id have_temp
             (ingest (s\<lparr>tempTrack := [10, 10]\<rparr>) (temperature_line 13)) = Inr True"
    by (simp add: ingest_def temperature_line_def trim_tempTrack_def rollingAveNum_def
        streamRoll_def np_mean_def)
  from streamRoll_is_spec [OF assms] a b show ?thesis by simp
qed

theorem streamRoll_matches_spec_witness:
  "[10, 10, 13] \<noteq> ([] :: real list)
   \<and> streamRoll [10, 10, 13] = Inr (spec_smoother [10, 10, 13])
   \<and> spec_smoother [10, 10, 13] = 35 / 3"
proof -
  have ne: "[10, 10, 13] \<noteq> ([] :: real list)" by simp
  have v: "spec_smoother [10, 10, 13] = 35 / 3"
    by (simp add: spec_smoother_def spec_estimate_def mean_def last_entries_def)
  from streamRoll_matches_spec [OF ne] ne v show ?thesis by simp
qed

text \<open>
  C3, as the specification states it, fails: with the history 10, 10, 10 and the new
  reading 20 the estimate is 140/9 (about 15.56, not 13.33), the reading is less than 5
  away from it, and the temperature flag becomes true.
\<close>

theorem reading_20_not_rejected:
  "streamRoll [10, 10, 10, 20] = Inr (140 / 9)
   \<and> \<not> \<bar>20 - 140 / 9\<bar> > (5 :: real)
   \<and> map_sum id have_temp
        (ingest ((initial [] [])\<lparr>tempTrack := [10, 10, 10]\<rparr>) (temperature_line 20))
       = Inr True"
  by (simp add: ingest_def temperature_line_def trim_tempTrack_def rollingAveNum_def
      streamRoll_def np_mean_def initial_def)

text \<open>
  C3, amended. With temperature history 10, 10, 10 and a new reading 20 appended, the
  rolling estimate is 140/9, so the reading is 40/9 away from it, which is at most 5, and
  the reading is accepted: the temperature completeness flag is set to true.
\<close>

theorem reading_20_accepted:
  "map_sum id (\<lambda>s'. (tempTrack s', roll s', have_temp s'))
     (ingest (s\<lparr>tempTrack := [10, 10, 10]\<rparr>) (temperature_line 20))
   = Inr ([10, 10, 10, 20], [140 / 9], True)
   \<and> \<bar>20 - 140 / 9\<bar> = (40 / 9 :: real)"
  by (simp add: ingest_def temperature_line_def trim_tempTrack_def rollingAveNum_def
      streamRoll_def np_mean_def)

subsection \<open>The temperature history\<close>

lemma length_trim_tempTrack: "length (trim_tempTrack tt) \<le> 5"
  by (simp add: trim_tempTrack_def rollingAveNum_def)

lemma ingest_tempTrack:
  assumes "ingest s df = Inr s'"
  shows "tempTrack s' =
     (case temperature_C df of
        None \<Rightarrow> tempTrack s
      | Some v \<Rightarrow> trim_tempTrack (tempTrack s @ [v]))"
  using assms
  by (auto simp: ingest_def Let_def split: option.splits sum.splits)

lemma ingest_bounded:
  assumes "ingest s df = Inr s'" and "length (tempTrack s) \<le> 5"
  shows "length (tempTrack s') \<le> 5"
  using ingest_tempTrack [OF assms(1)] assms(2)
  by (simp add: length_trim_tempTrack split: option.splits)

lemma receive_bounded:
  assumes "receive s ev = Inr s'" and "length (tempTrack s) \<le> 5"
  shows "length (tempTrack s') \<le> 5"
proof (cases ev)
  case Empty
  with assms show ?thesis by (auto simp: receive_def Let_def)
next
  case (Got l)
  show ?thesis
  proof (cases "pulse s - 1 > 0")
    case False
    with Got assms show ?thesis by (auto simp: receive_def Let_def)
  next
    case True
    with Got assms(1) obtain df where
      "ingest (s\<lparr>upload_timer := upload_timer s + 1, pulse := pulse s - 1\<rparr>) df = Inr s'"
      by (auto simp: receive_def Let_def split: sum.splits)
    from ingest_bounded [OF this] assms(2) show ?thesis by simp
  qed
qed

lemma deliver_tempTrack:
  assumes "deliver s n = Inr s'"
  shows "tempTrack s' = tempTrack s"
  using assms
  by (auto simp: deliver_def flush_def reset_trackers_def clear_after_upload_def clearVars_def
      split: if_splits sum.splits)

lemma iteration_bounded:
  assumes "iteration s en = Inr s'" and "length (tempTrack s) \<le> 5"
  shows "length (tempTrack s') \<le> 5"
proof -
  from assms(1) obtain s1 where
    r: "receive s (fst en) = Inr s1" and d: "deliver s1 (snd en) = Inr s'"
    by (auto simp: iteration_def split: sum.splits)
  from receive_bounded [OF r assms(2)] deliver_tempTrack [OF d] show ?thesis by simp
qed

lemma run_bounded:
  "run s ens = Inr s' \<Longrightarrow> length (tempTrack s) \<le> 5 \<Longrightarrow> length (tempTrack s') \<le> 5"
proof (induction ens arbitrary: s)
  case Nil
  then show ?case by simp
next
  case (Cons en ens)
  from Cons.prems(1) obtain s1 where
    i: "iteration s en = Inr s1" and r: "run s1 ens = Inr s'"
    by (auto split: sum.splits)
  from Cons.IH [OF r iteration_bounded [OF i Cons.prems(2)]] show ?case .
qed

text \<open>
  C6. In every state the loop reaches from its initial state, after any number of
  iterations and hence of ingested temperature lines, the temperature history holds at
  most 5 entries.
\<close>

theorem tempTrack_at_most_5:
  assumes "run (initial station_id station_key) ens = Inr s"
  shows "length (tempTrack s) \<le> 5"
  using run_bounded [OF assms] by (simp add: initial_def)

theorem tempTrack_at_most_5_witness:
  "\<exists>s. run (initial [] []) six_temperatures = Inr s
       \<and> tempTrack s = [3, 4, 5, 6] \<and> length (tempTrack s) \<le> 5"
proof -
  have "map_sum id tempTrack (run (initial [] []) six_temperatures) = Inr [3, 4, 5, 6]"
    by (simp add: six_temperatures_def iteration_def receive_def deliver_def isComplete_def
        initial_def read_json_def ingest_def temperature_line_def trim_tempTrack_def
        rollingAveNum_def streamRoll_def np_mean_def Let_def eval_nat_numeral)
  then obtain s where
    r: "run (initial [] []) six_temperatures = Inr s" and t: "tempTrack s = [3, 4, 5, 6]"
    by (cases "run (initial [] []) six_temperatures") auto
  from tempTrack_at_most_5 [OF r] r t show ?thesis by blast
qed

subsection \<open>Flushing\<close>

text \<open>
  C8. The flush (lines 421--429: the counters and buffers take the values of clearVars,
  the four flags are reset) leaves all four buffers empty, all four completeness flags
  false and the liveness counter at 0, and does not touch the temperature history.
\<close>

theorem flush_effect:
  "hum (flush s) = [] \<and> tempC (flush s) = [] \<and> windDir (flush s) = []
   \<and> windSpeed (flush s) = []
   \<and> have_hum (flush s) = False \<and> have_temp (flush s) = False
   \<and> have_wd (flush s) = False \<and> have_ws (flush s) = False
   \<and> pulse (flush s) = 0
   \<and> tempTrack (flush s) = tempTrack s"
  by (simp add: flush_def reset_trackers_def clear_after_upload_def clearVars_def)

subsection \<open>Display and upload\<close>

text \<open>
  C10. For every non-empty temperature buffer t (and non-empty wind buffers, without
  which neither action gets as far as its output), the Fahrenheit temperature that
  display_data prints and the one that upload_weather sends as tempf both equal
  ((mean t + 10.001) * 1.8) + 32; the dew point that upload_weather sends is computed
  from that same biased value.
\<close>

theorem temperature_bias:
  assumes "t \<noteq> []" and "wd \<noteq> []" and "ws \<noteq> []"
  shows "map_sum id temperature_F (display_data h t wd ws)
           = Inr (Some (((mean t + 10.001) * 1.8) + 32))
       \<and> map_sum id (\<lambda>sent. tempf (fst sent)) (upload_weather i k t h wd ws n)
           = Inr (Some (((mean t + 10.001) * 1.8) + 32))
       \<and> map_sum id (\<lambda>sent. dewPtF (fst sent)) (upload_weather i k t h wd ws n)
           = Inr (if h = [] then None
                  else Some ((((mean t + 10.001) * 1.8) + 32) - 0.36 * (100 - mean h)))"
proof -
  from assms(2) obtain d ds where wd: "wd = d # ds" by (cases wd) auto
  from assms(3) obtain w wss where ws: "ws = w # wss" by (cases ws) auto
  from assms(1) have m: "np_mean t = Some (mean t)" by (simp add: np_mean_def mean_def)
  have mh: "np_mean h = (if h = [] then None else Some (mean h))"
    by (simp add: np_mean_def mean_def)
  show ?thesis
    by (simp add: display_data_def upload_weather_def build_weather_data_def wd ws m mh
        degc_to_degf_def temp_correct_def rht_to_dp_def urlopen_def split: net.split)
qed

theorem temperature_bias_witness:
  "[20] \<noteq> ([] :: real list) \<and> [90] \<noteq> ([] :: real list) \<and> [3] \<noteq> ([] :: real list)
   \<and> map_sum id temperature_F (display_data [50] [20] [90] [3]) = Inr (Some (860018 / 10000))
   \<and> map_sum id (\<lambda>sent. tempf (fst sent))
        (upload_weather ''id'' ''key'' [20] [50] [90] [3] (Fails URLError))
       = Inr (Some (860018 / 10000))"
proof -
  have ne: "[20] \<noteq> ([] :: real list)" "[90] \<noteq> ([] :: real list)" "[3] \<noteq> ([] :: real list)"
    by simp_all
  have v: "((mean [20] + 10.001) * 1.8) + 32 = (860018 / 10000 :: real)"
    by (simp add: mean_def)
  from temperature_bias [OF ne, of "[50]" "''id''" "''key''" "Fails URLError"] ne v
  show ?thesis by simp
qed

subsection \<open>Evaluating scenarios\<close>

lemmas scenario_simps =
  iteration_def receive_def deliver_def isComplete_def read_json_def display_data_def
  reset_trackers_def flush_def clear_after_upload_def clearVars_def UPLOAD_INTERVAL_def
  ingest_def temperature_line_def humidity_line_def wind_direction_line_def
  wind_speed_line_def trim_tempTrack_def rollingAveNum_def streamRoll_def np_mean_def
  initial_def Let_def

lemma run_append:
  "run s (ens @ ens') = (case run s ens of Inl e \<Rightarrow> Inl e | Inr s' \<Rightarrow> run s' ens')"
  by (induction ens arbitrary: s) (auto split: sum.splits)

lemma run_idle:
  "\<not> isComplete s \<Longrightarrow>
   run s (replicate m (Empty, n)) =
     Inr (s\<lparr>upload_timer := upload_timer s + int m, pulse := pulse s + int m\<rparr>)"
proof (induction m arbitrary: s)
  case 0
  then show ?case by simp
next
  case (Suc m)
  let ?s1 = "s\<lparr>upload_timer := upload_timer s + 1, pulse := pulse s + 1\<rparr>"
  from Suc.prems have nc: "\<not> isComplete ?s1" by (simp add: isComplete_def)
  have "receive s Empty = Inr ?s1"
    by (simp add: receive_def Let_def)
  moreover from nc have "deliver ?s1 n = Inr ?s1"
    by (simp add: deliver_def)
  ultimately have "iteration s (Empty, n) = Inr ?s1"
    by (simp add: iteration_def)
  with Suc.IH [OF nc] show ?case by (simp add: add.commute add.left_commute)
qed

lemma run_three_of_four:
  assumes "4 \<le> m"
  shows "run (initial [] []) (three_of_four m) = Inr (after_three_of_four (int m))"
proof -
  have nc: "\<not> isComplete (initial [] [])" by (simp add: initial_def isComplete_def)
  from assms show ?thesis
    unfolding three_of_four_def run_append run_idle [OF nc]
    by (simp add: after_three_of_four_def scenario_simps)
qed


subsection \<open>Invariants of the loop\<close>

lemma trim_tempTrack_nonempty: "tt \<noteq> [] \<Longrightarrow> trim_tempTrack tt \<noteq> []"
  by (auto simp: trim_tempTrack_def rollingAveNum_def)

lemma ingest_flags:
  "\<exists>s'. ingest s df = Inr s'
     \<and> have_hum s' = (have_hum s \<or> humidity df \<noteq> None)
     \<and> have_wd s' = (have_wd s \<or> wind_direction df \<noteq> None)
     \<and> have_ws s' = (have_ws s \<or> wind_speed_ms df \<noteq> None)
     \<and> have_temp s' =
         (case temperature_C df of
            None \<Rightarrow> have_temp s
          | Some v \<Rightarrow> accepted (trim_tempTrack (tempTrack s @ [v])))
     \<and> tempTrack s' =
         (case temperature_C df of
            None \<Rightarrow> tempTrack s
          | Some v \<Rightarrow> trim_tempTrack (tempTrack s @ [v]))"
proof (cases "temperature_C df")
  case None
  then show ?thesis
    by (simp add: ingest_def Let_def split: option.splits)
next
  case (Some v)
  have "trim_tempTrack (tempTrack s @ [v]) \<noteq> []"
    by (rule trim_tempTrack_nonempty) simp
  from streamRoll_is_spec [OF this] Some show ?thesis
    by (simp add: ingest_def Let_def accepted_def not_less split: option.splits)
qed

lemma ingest_fed:
  assumes "ingest s df = Inr s'" and "fed s"
  shows "fed s'"
  using assms
  by (auto simp: ingest_def Let_def fed_def split: option.splits sum.splits)

lemma receive_fed:
  assumes "receive s ev = Inr s'" and "fed s"
  shows "fed s'"
proof (cases ev)
  case Empty
  with assms show ?thesis by (auto simp: receive_def Let_def fed_def)
next
  case (Got l)
  show ?thesis
  proof (cases "pulse s - 1 > 0")
    case False
    with Got assms show ?thesis by (auto simp: receive_def Let_def fed_def)
  next
    case True
    let ?s2 = "s\<lparr>upload_timer := upload_timer s + 1, pulse := pulse s - 1\<rparr>"
    from True Got assms(1) obtain df where i: "ingest ?s2 df = Inr s'"
      by (auto simp: receive_def Let_def split: sum.splits)
    from assms(2) have "fed ?s2" by (simp add: fed_def)
    from ingest_fed [OF i this] show ?thesis .
  qed
qed

lemma deliver_fed:
  assumes "deliver s n = Inr s'" and "fed s"
  shows "fed s'"
  using assms
  by (auto simp: deliver_def flush_def reset_trackers_def fed_def
      split: if_splits sum.splits)

lemma run_fed: "run s ens = Inr s' \<Longrightarrow> fed s \<Longrightarrow> fed s'"
proof (induction ens arbitrary: s)
  case Nil
  then show ?case by simp
next
  case (Cons en ens)
  from Cons.prems(1) obtain s1 s2 where
    r: "receive s (fst en) = Inr s1" and d: "deliver s1 (snd en) = Inr s2"
    and rest: "run s2 ens = Inr s'"
    by (auto simp: iteration_def split: sum.splits)
  from deliver_fed [OF d receive_fed [OF r Cons.prems(2)]] have "fed s2" .
  from Cons.IH [OF rest this] show ?case .
qed

lemma reachable_fed:
  assumes "run (initial i k) ens = Inr s"
  shows "fed s"
  using run_fed [OF assms] by (simp add: initial_def fed_def)

lemma deliver_not_complete:
  assumes "deliver s n = Inr s'"
  shows "\<not> isComplete s'"
  using assms
  by (auto simp: deliver_def flush_def reset_trackers_def isComplete_def
      split: if_splits sum.splits)

lemma run_not_complete:
  "run s ens = Inr s' \<Longrightarrow> \<not> isComplete s \<Longrightarrow> \<not> isComplete s'"
proof (induction ens arbitrary: s)
  case Nil
  then show ?case by simp
next
  case (Cons en ens)
  from Cons.prems(1) obtain s1 s2 where
    d: "deliver s1 (snd en) = Inr s2" and rest: "run s2 ens = Inr s'"
    by (auto simp: iteration_def split: sum.splits)
  from Cons.IH [OF rest deliver_not_complete [OF d]] show ?case .
qed

lemma reachable_not_complete:
  assumes "run (initial i k) ens = Inr s"
  shows "\<not> isComplete s"
  using run_not_complete [OF assms] by (simp add: initial_def isComplete_def)

text \<open>With its buffers fed, a complete cycle is displayed and, when due, uploaded without
  an exception, whatever the network does.\<close>

lemma upload_weather_net:
  "upload_weather i k t h wd ws n =
     (case build_weather_data i k t h wd ws of
        Inl e \<Rightarrow> Inl e
      | Inr wdata \<Rightarrow>
          Inr (wdata, case n of Responds \<Rightarrow> ServerResponse | Fails e \<Rightarrow> ExceptionLogged))"
  by (simp add: upload_weather_def urlopen_def split: sum.splits net.splits)

lemma build_weather_data_fed:
  assumes "wd \<noteq> []" and "ws \<noteq> []"
  shows "\<exists>wdata. build_weather_data i k t h wd ws = Inr wdata"
proof -
  from assms(1) obtain d ds where wd: "wd = d # ds" by (cases wd) auto
  from assms(2) obtain w wss where ws: "ws = w # wss" by (cases ws) auto
  show ?thesis by (simp add: build_weather_data_def wd ws)
qed

lemma display_data_fed:
  assumes "wd \<noteq> []" and "ws \<noteq> []"
  shows "\<exists>shown. display_data h c wd ws = Inr shown"
proof -
  from assms(1) obtain d ds where wd: "wd = d # ds" by (cases wd) auto
  from assms(2) obtain w wss where ws: "ws = w # wss" by (cases ws) auto
  show ?thesis by (simp add: display_data_def wd ws)
qed

lemma attempt_upload_fed:
  assumes "fed s" and "isComplete s"
  shows "attempt_upload s n = Inr ()"
proof -
  from assms have t: "tempC s \<noteq> []" and wd: "windDir s \<noteq> []" and ws: "windSpeed s \<noteq> []"
    by (simp_all add: fed_def isComplete_def)
  from build_weather_data_fed [OF wd ws] obtain wdata where
    "build_weather_data (wu_station_id s) (wu_station_key s) [last (tempC s)] (hum s)
       (windDir s) (windSpeed s) = Inr wdata"
    by blast
  then have u: "\<exists>sent. upload_weather (wu_station_id s) (wu_station_key s) [last (tempC s)]
       (hum s) (windDir s) (windSpeed s) n = Inr sent"
    by (simp add: upload_weather_net)
  from t obtain x xs where c: "tempC s = x # xs" by (cases "tempC s") auto
  from u c show ?thesis
    by (auto simp add: attempt_upload_def simp del: last.simps)
qed

lemma deliver_fed_complete:
  assumes "fed s" and "isComplete s"
  shows "deliver s n =
     Inr (if UPLOAD_INTERVAL < upload_timer s then flush s else reset_trackers s)"
proof -
  from assms have wd: "windDir s \<noteq> []" and ws: "windSpeed s \<noteq> []"
    by (simp_all add: fed_def isComplete_def)
  from display_data_fed [OF wd ws] obtain shown where
    "display_data (hum s) (tempC s) (windDir s) (windSpeed s) = Inr shown"
    by blast
  with assms(2) attempt_upload_fed [OF assms] show ?thesis
    by (simp add: deliver_def)
qed

subsection \<open>Malformed lines\<close>

text \<open>
  What one more line that is not valid JSON telemetry does in a state the loop has
  reached: with the liveness counter positive after its decrement the line is parsed and
  the error of the parser, which nothing catches, ends the loop; otherwise the line is
  not looked at.
\<close>

lemma run_malformed:
  assumes "run (initial i k) ens = Inr s"
  shows "run (initial i k) (ens @ [(Got Malformed, n)]) =
     (if pulse s - 1 > 0 then Inl ValueError
      else Inr (s\<lparr>upload_timer := upload_timer s + 1, pulse := pulse s - 1\<rparr>))"
proof -
  let ?s2 = "s\<lparr>upload_timer := upload_timer s + 1, pulse := pulse s - 1\<rparr>"
  from reachable_not_complete [OF assms] have "\<not> isComplete ?s2"
    by (simp add: isComplete_def)
  then have d: "deliver ?s2 n = Inr ?s2"
    by (simp add: deliver_def)
  have r: "receive s (Got Malformed) = (if pulse s - 1 > 0 then Inl ValueError else Inr ?s2)"
    by (simp add: receive_def read_json_def Let_def)
  from r d have "iteration s (Got Malformed, n) =
     (if pulse s - 1 > 0 then Inl ValueError else Inr ?s2)"
    by (simp add: iteration_def)
  with assms show ?thesis by (simp add: run_append)
qed

lemma malformed_line_parsed:
  assumes "run (initial i k) ens = Inr s" and "pulse s - 1 > 0"
  shows "run (initial i k) (ens @ [(Got Malformed, n)]) = Inl ValueError"
  using run_malformed [OF assms(1)] assms(2) by simp

text \<open>
  C2. The claim has every line that is not valid JSON telemetry skipped, with the loop
  going on to the next line. The code does not do so: after two empty reads of the queue
  the liveness counter is 2, a malformed line brings it to 1, the line is parsed, and the
  ValueError of the parser leaves the loop. The same happens in the middle of a cycle:
  after five empty reads and a line each of humidity, temperature and wind direction,
  the loop is in a state with three flags set, and a malformed line ends it.
\<close>

theorem malformed_line_raises:
  "run (initial [] []) [(Empty, Responds), (Empty, Responds)]
     = Inr ((initial [] [])\<lparr>pulse := 2, upload_timer := 2\<rparr>)
   \<and> run (initial [] []) [(Empty, Responds), (Empty, Responds), (Got Malformed, Responds)]
     = Inl ValueError
   \<and> run (initial [] []) (three_of_four 5) = Inr (after_three_of_four 5)
   \<and> run (initial [] []) (three_of_four 5 @ [(Got Malformed, Responds)]) = Inl ValueError"
proof -
  have a: "run (initial [] []) [(Empty, Responds), (Empty, Responds)]
     = Inr ((initial [] [])\<lparr>pulse := 2, upload_timer := 2\<rparr>)"
    by (simp add: iteration_def receive_def deliver_def isComplete_def initial_def)
  have b: "run (initial [] []) [(Empty, Responds), (Empty, Responds), (Got Malformed, Responds)]
     = Inl ValueError"
    by (simp add: iteration_def receive_def deliver_def isComplete_def initial_def
        read_json_def)
  have c: "run (initial [] []) (three_of_four 5) = Inr (after_three_of_four 5)"
    using run_three_of_four [of 5] by simp
  have "pulse (after_three_of_four 5) - 1 > 0"
    by (simp add: after_three_of_four_def)
  from malformed_line_parsed [OF c this] have
    d: "run (initial [] []) (three_of_four 5 @ [(Got Malformed, Responds)]) = Inl ValueError" .
  from a b c d show ?thesis by simp
qed

subsection \<open>The end of a cycle\<close>

text \<open>
  C4, as the specification states it, fails: five empty reads, then one line of each
  channel. The fourth line completes the cycle with the upload counter at 9; the flags
  are reset and the four buffers keep their values.
\<close>

theorem buffers_kept_between_uploads:
  "run (initial [] []) (three_of_four 5) = Inr (after_three_of_four 5)
   \<and> map_sum id isComplete
       (receive (after_three_of_four 5) (Got (Telemetry (wind_speed_line 3)))) = Inr True
   \<and> iteration (after_three_of_four 5) (Got (Telemetry (wind_speed_line 3)), Responds)
      = Inr ((initial [] [])\<lparr>pulse := 1, upload_timer := 9, hum := [50], tempC := [20],
              windDir := [90], windSpeed := [3], roll := [20], tempTrack := [20]\<rparr>)"
proof -
  have "run (initial [] []) (three_of_four 5) = Inr (after_three_of_four (int 5))"
    by (rule run_three_of_four) simp
  then show ?thesis
    by (simp add: after_three_of_four_def scenario_simps)
qed

text \<open>
  C4, amended. Whenever a line completes a cycle in a state the loop has reached, the
  iteration ends normally with the four completeness flags false. The four buffers are
  emptied (together with the liveness counter and the upload counter) only when the
  upload counter exceeds the upload interval; otherwise buffers and counters keep their
  values, so that a buffer can hold values of several cycles.
\<close>

theorem cycle_end:
  assumes "run (initial i k) ens = Inr s" and "receive s ev = Inr s1" and "isComplete s1"
  shows "\<exists>s'. iteration s (ev, n) = Inr s'
    \<and> \<not> have_hum s' \<and> \<not> have_temp s' \<and> \<not> have_wd s' \<and> \<not> have_ws s'
    \<and> (if UPLOAD_INTERVAL < upload_timer s1
        then hum s' = [] \<and> tempC s' = [] \<and> windDir s' = [] \<and> windSpeed s' = []
          \<and> pulse s' = 0 \<and> upload_timer s' = 0
        else hum s' = hum s1 \<and> tempC s' = tempC s1 \<and> windDir s' = windDir s1
          \<and> windSpeed s' = windSpeed s1 \<and> pulse s' = pulse s1
          \<and> upload_timer s' = upload_timer s1)"
proof -
  from receive_fed [OF assms(2) reachable_fed [OF assms(1)]] have f: "fed s1" .
  from assms(2) deliver_fed_complete [OF f assms(3), of n] have
    "iteration s (ev, n) =
       Inr (if UPLOAD_INTERVAL < upload_timer s1 then flush s1 else reset_trackers s1)"
    by (simp add: iteration_def)
  then show ?thesis
    by (simp add: flush_def reset_trackers_def clear_after_upload_def clearVars_def)
qed

theorem cycle_end_witness:
  "run (initial [] []) (three_of_four 5) = Inr (after_three_of_four 5)
   \<and> receive (after_three_of_four 5) (Got (Telemetry (wind_speed_line 3)))
      = Inr ((after_three_of_four 5)\<lparr>upload_timer := 9, pulse := 1, windSpeed := [3], have_ws := True\<rparr>)
   \<and> isComplete ((after_three_of_four 5)\<lparr>upload_timer := 9, pulse := 1, windSpeed := [3], have_ws := True\<rparr>)
   \<and> (\<exists>s'. iteration (after_three_of_four 5) (Got (Telemetry (wind_speed_line 3)), Responds) = Inr s'
        \<and> \<not> have_hum s' \<and> \<not> have_temp s' \<and> \<not> have_wd s' \<and> \<not> have_ws s'
        \<and> hum s' = [50] \<and> tempC s' = [20] \<and> windDir s' = [90] \<and> windSpeed s' = [3]
        \<and> pulse s' = 1 \<and> upload_timer s' = 9)"
proof -
  let ?s1 = "(after_three_of_four 5)\<lparr>upload_timer := 9, pulse := 1, windSpeed := [3], have_ws := True\<rparr>"
  have a: "run (initial [] []) (three_of_four 5) = Inr (after_three_of_four 5)"
    using run_three_of_four [of 5] by simp
  have b: "receive (after_three_of_four 5) (Got (Telemetry (wind_speed_line 3))) = Inr ?s1"
    by (simp add: after_three_of_four_def scenario_simps)
  have c: "isComplete ?s1"
    by (simp add: after_three_of_four_def isComplete_def)
  have v: "\<not> UPLOAD_INTERVAL < upload_timer ?s1" "hum ?s1 = [50]" "tempC ?s1 = [20]"
    "windDir ?s1 = [90]" "windSpeed ?s1 = [3]" "pulse ?s1 = 1" "upload_timer ?s1 = 9"
    by (simp_all add: after_three_of_four_def UPLOAD_INTERVAL_def initial_def)
  from cycle_end [OF a b c, of Responds] a b c v show ?thesis
    by simp
qed

subsection \<open>Completeness\<close>

lemma ingest_all_flags:
  "\<exists>s'. ingest_all s dfs = Inr s'
     \<and> have_hum s' = (have_hum s \<or> seen humidity dfs)
     \<and> have_wd s' = (have_wd s \<or> seen wind_direction dfs)
     \<and> have_ws s' = (have_ws s \<or> seen wind_speed_ms dfs)
     \<and> have_temp s' =
         (if verdicts (tempTrack s) dfs = [] then have_temp s
          else last (verdicts (tempTrack s) dfs))"
proof (induction dfs arbitrary: s)
  case Nil
  then show ?case by (simp add: seen_def)
next
  case (Cons df dfs)
  from ingest_flags [of s df] obtain s1 where
    i: "ingest s df = Inr s1"
    and h: "have_hum s1 = (have_hum s \<or> humidity df \<noteq> None)"
    and d: "have_wd s1 = (have_wd s \<or> wind_direction df \<noteq> None)"
    and w: "have_ws s1 = (have_ws s \<or> wind_speed_ms df \<noteq> None)"
    and t: "have_temp s1 =
         (case temperature_C df of
            None \<Rightarrow> have_temp s
          | Some v \<Rightarrow> accepted (trim_tempTrack (tempTrack s @ [v])))"
    and tt: "tempTrack s1 =
         (case temperature_C df of
            None \<Rightarrow> tempTrack s
          | Some v \<Rightarrow> trim_tempTrack (tempTrack s @ [v]))"
    by blast
  from Cons.IH [of s1] obtain s' where
    r: "ingest_all s1 dfs = Inr s'"
    and h': "have_hum s' = (have_hum s1 \<or> seen humidity dfs)"
    and d': "have_wd s' = (have_wd s1 \<or> seen wind_direction dfs)"
    and w': "have_ws s' = (have_ws s1 \<or> seen wind_speed_ms dfs)"
    and t': "have_temp s' =
         (if verdicts (tempTrack s1) dfs = [] then have_temp s1
          else last (verdicts (tempTrack s1) dfs))"
    by blast
  have run: "ingest_all s (df # dfs) = Inr s'" using i r by simp
  have 1: "have_hum s' = (have_hum s \<or> seen humidity (df # dfs))"
    using h h' by (auto simp: seen_def)
  have 2: "have_wd s' = (have_wd s \<or> seen wind_direction (df # dfs))"
    using d d' by (auto simp: seen_def)
  have 3: "have_ws s' = (have_ws s \<or> seen wind_speed_ms (df # dfs))"
    using w w' by (auto simp: seen_def)
  have 4: "have_temp s' =
         (if verdicts (tempTrack s) (df # dfs) = [] then have_temp s
          else last (verdicts (tempTrack s) (df # dfs)))"
    using t tt t' by (cases "temperature_C df") auto
  from run 1 2 3 4 show ?case by blast
qed

text \<open>
  C7, as the specification states it, fails: after the flags were reset, the temperatures
  10, 10 are accepted and the temperature 40 is rejected, then humidity, wind direction
  and wind speed arrive. Every channel has been observed, the temperature by an accepted
  reading, and the completeness test is false. The same lines through the loop leave the
  temperature flag false.
\<close>

theorem rejected_after_accepted:
  "map_sum id isComplete (ingest_all (initial [] []) spike_cycle) = Inr False
   \<and> spec_isComplete [] spike_cycle
   \<and> map_sum id have_hum (run (initial [] []) spike_events) = Inr True
   \<and> map_sum id have_temp (run (initial [] []) spike_events) = Inr False
   \<and> map_sum id have_wd (run (initial [] []) spike_events) = Inr True
   \<and> map_sum id have_ws (run (initial [] []) spike_events) = Inr True"
proof -
  have a: "map_sum id isComplete (ingest_all (initial [] []) spike_cycle) = Inr False"
    by (simp add: spike_cycle_def scenario_simps)
  have b: "spec_isComplete [] spike_cycle"
    by (simp add: spike_cycle_def spec_isComplete_def seen_def accepted_def scenario_simps)
  have "run (initial [] []) spike_events =
     Inr ((initial [] [])\<lparr>have_hum := True, have_wd := True, have_ws := True,
       pulse := 4, upload_timer := 16, hum := [50], tempC := [40], windDir := [90],
       windSpeed := [3], roll := [80 / 3], tempTrack := [10, 10, 40]\<rparr>)"
    by (simp add: spike_events_def scenario_simps eval_nat_numeral)
  with a b show ?thesis by (simp add: initial_def)
qed

text \<open>
  C7, amended. Starting with the four flags false, after any sequence of ingested lines
  the completeness test is true if and only if humidity, wind direction and wind speed
  have each been observed at least once and the most recent temperature of the sequence
  was accepted (a rejected reading takes the temperature flag back). The order of
  arrival does not matter otherwise.
\<close>

theorem completeness_latest_temperature:
  assumes "\<not> have_hum s" and "\<not> have_temp s" and "\<not> have_wd s" and "\<not> have_ws s"
  shows "\<exists>s'. ingest_all s dfs = Inr s'
     \<and> isComplete s' =
         (seen humidity dfs \<and> latest_accepted (tempTrack s) dfs
          \<and> seen wind_direction dfs \<and> seen wind_speed_ms dfs)"
proof -
  from ingest_all_flags [of s dfs] obtain s' where
    r: "ingest_all s dfs = Inr s'"
    and h: "have_hum s' = (have_hum s \<or> seen humidity dfs)"
    and d: "have_wd s' = (have_wd s \<or> seen wind_direction dfs)"
    and w: "have_ws s' = (have_ws s \<or> seen wind_speed_ms dfs)"
    and t: "have_temp s' =
         (if verdicts (tempTrack s) dfs = [] then have_temp s
          else last (verdicts (tempTrack s) dfs))"
    by blast
  from t assms(2) have "have_temp s' = latest_accepted (tempTrack s) dfs"
    by (simp add: latest_accepted_def)
  with h d w assms have
    "isComplete s' =
       (seen humidity dfs \<and> latest_accepted (tempTrack s) dfs
        \<and> seen wind_direction dfs \<and> seen wind_speed_ms dfs)"
    by (auto simp: isComplete_def)
  with r show ?thesis by blast
qed

theorem completeness_latest_temperature_witness:
  "\<not> have_hum (initial [] []) \<and> \<not> have_temp (initial [] [])
   \<and> \<not> have_wd (initial [] []) \<and> \<not> have_ws (initial [] [])
   \<and> (\<exists>s'. ingest_all (initial [] []) full_cycle = Inr s' \<and> isComplete s')"
proof -
  have f: "\<not> have_hum (initial [] [])" "\<not> have_temp (initial [] [])"
    "\<not> have_wd (initial [] [])" "\<not> have_ws (initial [] [])"
    by (simp_all add: initial_def)
  have v: "seen humidity full_cycle \<and> latest_accepted (tempTrack (initial [] [])) full_cycle
          \<and> seen wind_direction full_cycle \<and> seen wind_speed_ms full_cycle"
    by (simp add: full_cycle_def seen_def latest_accepted_def accepted_def scenario_simps)
  from completeness_latest_temperature [OF f, of full_cycle] f v show ?thesis by auto
qed

subsection \<open>Upload failures\<close>

text \<open>
  C9. When a line completes a cycle in a state the loop has reached and the upload is
  due, a failing network call is caught inside upload_weather, which logs the exception;
  the iteration ends as it does when the server responds, in the flushed state, whose
  upload counter is 0.
\<close>

theorem upload_failure_contained:
  assumes "run (initial i k) ens = Inr s" and "receive s ev = Inr s1"
    and "isComplete s1" and "UPLOAD_INTERVAL < upload_timer s1"
  shows "map_sum id snd
           (upload_weather (wu_station_id s1) (wu_station_key s1) [last (tempC s1)]
              (hum s1) (windDir s1) (windSpeed s1) (Fails e)) = Inr ExceptionLogged
    \<and> iteration s (ev, Fails e) = Inr (flush s1)
    \<and> iteration s (ev, Responds) = Inr (flush s1)
    \<and> upload_timer (flush s1) = 0"
proof -
  from receive_fed [OF assms(2) reachable_fed [OF assms(1)]] have f: "fed s1" .
  with assms(3) have wd: "windDir s1 \<noteq> []" and ws: "windSpeed s1 \<noteq> []"
    by (simp_all add: fed_def isComplete_def)
  from build_weather_data_fed [OF wd ws] obtain wdata where
    "build_weather_data (wu_station_id s1) (wu_station_key s1) [last (tempC s1)] (hum s1)
       (windDir s1) (windSpeed s1) = Inr wdata"
    by blast
  then have a: "map_sum id snd
           (upload_weather (wu_station_id s1) (wu_station_key s1) [last (tempC s1)]
              (hum s1) (windDir s1) (windSpeed s1) (Fails e)) = Inr ExceptionLogged"
    by (simp add: upload_weather_net)
  from assms(2,4) deliver_fed_complete [OF f assms(3)] have
    b: "iteration s (ev, Fails e) = Inr (flush s1)"
    and c: "iteration s (ev, Responds) = Inr (flush s1)"
    by (simp_all add: iteration_def)
  have d: "upload_timer (flush s1) = 0"
    by (simp add: flush_def reset_trackers_def clear_after_upload_def clearVars_def)
  from a b c d show ?thesis by simp
qed

theorem upload_failure_contained_witness:
  "run (initial [] []) (three_of_four 61) = Inr (after_three_of_four 61)
   \<and> receive (after_three_of_four 61) (Got (Telemetry (wind_speed_line 3)))
      = Inr ((after_three_of_four 61)\<lparr>upload_timer := 65, pulse := 57, windSpeed := [3],
               have_ws := True\<rparr>)
   \<and> iteration (after_three_of_four 61)
        (Got (Telemetry (wind_speed_line 3)), Fails TimeoutError)
      = Inr ((initial [] [])\<lparr>roll := [20], tempTrack := [20]\<rparr>)"
proof -
  let ?s1 = "(after_three_of_four 61)\<lparr>upload_timer := 65, pulse := 57, windSpeed := [3],
               have_ws := True\<rparr>"
  have a: "run (initial [] []) (three_of_four 61) = Inr (after_three_of_four 61)"
    using run_three_of_four [of 61] by simp
  have b: "receive (after_three_of_four 61) (Got (Telemetry (wind_speed_line 3))) = Inr ?s1"
    by (simp add: after_three_of_four_def scenario_simps)
  have c: "isComplete ?s1"
    by (simp add: after_three_of_four_def isComplete_def)
  have d: "UPLOAD_INTERVAL < upload_timer ?s1"
    by (simp add: UPLOAD_INTERVAL_def)
  have v: "flush ?s1 = (initial [] [])\<lparr>roll := [20], tempTrack := [20]\<rparr>"
    by (simp add: after_three_of_four_def scenario_simps)
  from upload_failure_contained [OF a b c d, of TimeoutError] a b v show ?thesis
    by simp
qed

end
